theory Spec2Isabelle
  imports Main
begin

section \<open>Data model\<close>

text \<open>
  A Python \<open>str\<close> is a sequence of Unicode code points: a code point is a natural
  number and a string is a list of them, so that \<open>length\<close> counts what Python's
  \<open>len\<close> counts.  The letters the program works with:
  alpha 945 (U+03B1) to omega 969 (U+03C9), space 32, underscore 95, \<open>h\<close> 104,
  the combining rough breathing 788 (U+0314).
\<close>

type_synonym codepoint = nat
type_synonym ustring = "codepoint list"

text \<open>The values a caller can hand to \<open>create_id\<close> and \<open>sounds_per_word\<close>.\<close>

datatype pyobj = PyNone | PyInt int | PyStr ustring

datatype error = ValueError | TypeError | IndexError | KeyError

text \<open>
  A Python \<open>dict\<close> keeps its keys in insertion order: an association list with
  distinct keys.  \<open>dict_set\<close> is \<open>d[k] = v\<close> (an existing key keeps its place),
  \<open>dict_get\<close> is \<open>d.get(k, default)\<close>.
\<close>

type_synonym ('k, 'v) dict = "('k \<times> 'v) list"

fun dict_set :: "('k, 'v) dict \<Rightarrow> 'k \<Rightarrow> 'v \<Rightarrow> ('k, 'v) dict" where
  "dict_set [] k v = [(k, v)]"
| "dict_set ((k', v') # d) k v =
     (if k' = k then (k, v) # d else (k', v') # dict_set d k v)"

fun dict_get :: "('k, 'v) dict \<Rightarrow> 'k \<Rightarrow> 'v \<Rightarrow> 'v" where
  "dict_get [] k dflt = dflt"
| "dict_get ((k', v') # d) k dflt = (if k' = k then v' else dict_get d k dflt)"

subsection \<open>The library functions the program calls\<close>

text \<open>
  \<open>unicodedata.normalize("NFKD", _)\<close> and \<open>str.lower\<close> are given by the Unicode
  database of the running interpreter, and so are the decimal digits beyond ASCII that
  \<open>\d\<close> and \<open>int\<close> accept.  They are parameters of the model, collected in one
  record.  \<open>int_other\<close> is \<open>int(s)\<close> on every string that is not a plain run of
  ASCII digits (\<open>None\<close> when it raises ValueError).
\<close>

record pylib =
  unicode_nfkd :: "ustring \<Rightarrow> ustring"
  str_lower :: "ustring \<Rightarrow> ustring"
  nonascii_decimal :: "codepoint \<Rightarrow> bool"
  int_other :: "ustring \<Rightarrow> int option"

text \<open>The code points \<open>str.strip()\<close> removes (those with \<open>str.isspace\<close>).\<close>

definition py_isspace :: "codepoint \<Rightarrow> bool" where
  "py_isspace c \<longleftrightarrow>
     (9 \<le> c \<and> c \<le> 13) \<or> (28 \<le> c \<and> c \<le> 32) \<or> c = 133 \<or> c = 160 \<or> c = 5760 \<or>
     (8192 \<le> c \<and> c \<le> 8202) \<or> c = 8232 \<or> c = 8233 \<or> c = 8239 \<or> c = 8287 \<or>
     c = 12288"

definition py_strip :: "ustring \<Rightarrow> ustring" where
  "py_strip s = rev (dropWhile py_isspace (rev (dropWhile py_isspace s)))"

text \<open>
  \<open>re.sub(k, v, text)\<close> for a pattern \<open>k\<close> and a replacement \<open>v\<close> without
  special characters (every key and value of the tables below): the leftmost,
  non-overlapping occurrences of \<open>k\<close> are replaced, scanning from the left.  An empty
  pattern matches before every character and at the end.
\<close>

fun re_sub :: "ustring \<Rightarrow> ustring \<Rightarrow> ustring \<Rightarrow> ustring" where
  "re_sub k v [] = (if k = [] then v else [])"
| "re_sub k v (c # cs) =
     (if k = [] then v @ c # re_sub k v cs
      else if take (length k) (c # cs) = k then v @ re_sub k v (drop (length k - 1) cs)
      else c # re_sub k v cs)"

text \<open>Python compares strings code point by code point; a proper prefix is smaller.\<close>

fun str_less :: "ustring \<Rightarrow> ustring \<Rightarrow> bool" where
  "str_less [] [] = False"
| "str_less [] (y # ys) = True"
| "str_less (x # xs) [] = False"
| "str_less (x # xs) (y # ys) = (x < y \<or> (x = y \<and> str_less xs ys))"

definition str_le :: "ustring \<Rightarrow> ustring \<Rightarrow> bool" where
  "str_le a b \<longleftrightarrow> a = b \<or> str_less a b"

subsection \<open>\<open>int\<close> and the format specification \<open>0Nd\<close>\<close>

text \<open>
  \<open>\d\<close> in a \<open>str\<close> pattern matches the Unicode decimal digits; among the ASCII
  characters these are \<open>0\<close> to \<open>9\<close> (48 to 57).
\<close>

definition is_decimal :: "pylib \<Rightarrow> codepoint \<Rightarrow> bool" where
  "is_decimal L c = (if c < 128 then 48 \<le> c \<and> c \<le> 57 else nonascii_decimal L c)"

definition ascii_digits :: "ustring \<Rightarrow> bool" where
  "ascii_digits s \<longleftrightarrow> s \<noteq> [] \<and> list_all (\<lambda>c. 48 \<le> c \<and> c \<le> 57) s"

definition dec_value :: "ustring \<Rightarrow> nat" where
  "dec_value s = foldl (\<lambda>acc c. 10 * acc + (c - 48)) 0 s"

text \<open>
  \<open>int(s)\<close> for a string: a run of at most 640 ASCII digits is its decimal value (the
  interpreter's limit on the length of a numeral, 4300 digits unless configured, cannot
  be set below 640); signs, surrounding white space, underscores, other decimal digits
  and longer numerals are left to the parameter.
\<close>

definition py_int_str :: "pylib \<Rightarrow> ustring \<Rightarrow> int option" where
  "py_int_str L s =
     (if ascii_digits s \<and> length s \<le> 640 then Some (int (dec_value s)) else int_other L s)"

text \<open>\<open>int(x)\<close>: TypeError on \<open>None\<close>, ValueError on a string that is no numeral.\<close>

definition py_int :: "pylib \<Rightarrow> pyobj \<Rightarrow> error + int" where
  "py_int L x =
     (case x of
        PyNone \<Rightarrow> Inl TypeError
      | PyInt n \<Rightarrow> Inr n
      | PyStr s \<Rightarrow> (case py_int_str L s of None \<Rightarrow> Inl ValueError | Some n \<Rightarrow> Inr n))"

fun digits10 :: "nat \<Rightarrow> ustring" where
  "digits10 n = (if n < 10 then [48 + n] else digits10 (n div 10) @ [48 + n mod 10])"

declare digits10.simps [simp del]

definition zfill :: "nat \<Rightarrow> ustring \<Rightarrow> ustring" where
  "zfill w s = replicate (w - length s) 48 @ s"

text \<open>\<open>f"{n:0wd}"\<close>: the sign first, then zeros up to the width \<open>w\<close>, then the digits.\<close>

definition fmt_d :: "nat \<Rightarrow> int \<Rightarrow> ustring" where
  "fmt_d w n =
     (if n < 0 then 45 # zfill (w - 1) (digits10 (nat (- n))) else zfill w (digits10 (nat n)))"

section \<open>The replacement tables\<close>

text \<open>Permanent changes: final sigma, theta, chi, phi.\<close>

definition one_time :: "(ustring, ustring) dict" where
  "one_time = [([962], [963]), ([952], [964]), ([967], [954]), ([966], [960])]"

text \<open>
  Swaps for counting: a digraph and its one-character surrogate (Latin \<open>O\<close>, Greek
  capital iota U+0399, Latin \<open>e\<close>, \<open>Y\<close>, Greek capital alpha U+0391, Latin \<open>u\<close>,
  \<open>U\<close>).
\<close>

definition reversible :: "(ustring, ustring) dict" where
  "reversible =
     [([959, 953], [79]), ([945, 953], [921]), ([949, 953], [101]), ([965, 953], [89]),
      ([945, 965], [913]), ([949, 965], [117]), ([959, 965], [85])]"

text \<open>\<open>for k, v in reversible.items(): reverse_replacements[v] = k\<close>\<close>

definition reverse_replacements :: "(ustring, ustring) dict" where
  "reverse_replacements = foldl (\<lambda>d (k, v). dict_set d v k) [] reversible"

text \<open>The two loops that fill \<open>replacements\<close>: first \<open>reversible\<close>, then \<open>one_time\<close>.\<close>

definition replacements :: "(ustring, ustring) dict" where
  "replacements =
     foldl (\<lambda>d (k, v). dict_set d k v) (foldl (\<lambda>d (k, v). dict_set d k v) [] reversible)
       one_time"

section \<open>\<open>create_id\<close>\<close>

text \<open>
  \<open>re.match(r"(\d+)([a-z])", line)\<close>: the groups when the line starts with a run of
  decimal digits followed by a lowercase ASCII letter.  The run is the longest one: a
  decimal digit is never one of \<open>a\<close> to \<open>z\<close>, so giving digits back cannot make the
  letter match.
\<close>

definition re_match_line :: "pylib \<Rightarrow> ustring \<Rightarrow> (ustring \<times> ustring) option" where
  "re_match_line L line =
     (let ds = takeWhile (is_decimal L) line in
      case dropWhile (is_decimal L) line of
        [] \<Rightarrow> None
      | c # _ \<Rightarrow> if ds \<noteq> [] \<and> 97 \<le> c \<and> c \<le> 122 then Some (ds, [c]) else None)"

text \<open>The \<open>if m: ... else: ...\<close> of \<open>create_id\<close>: the pair \<open>(numeric, letter)\<close>.\<close>

definition line_parts :: "pylib \<Rightarrow> ustring \<Rightarrow> ustring \<times> ustring" where
  "line_parts L line =
     (case re_match_line L line of Some (g1, g2) \<Rightarrow> (g1, g2) | None \<Rightarrow> (line, []))"

definition create_id :: "pylib \<Rightarrow> pyobj \<Rightarrow> ustring \<Rightarrow> error + ustring" where
  "create_id L book line =
     (let (numeric, letter) = line_parts L line in
      case py_int L book of
        Inl e \<Rightarrow> Inl e
      | Inr b \<Rightarrow>
          (case py_int L (PyStr numeric) of
             Inl e \<Rightarrow> Inl e
           | Inr n \<Rightarrow> Inr (fmt_d 2 b @ [95] @ fmt_d 3 n @ letter)))"

text \<open>
  The order of the loci, to compare with the order of their keys: by book, then by line
  number, then by suffix, a line without suffix before the suffixed ones and these in
  alphabetical order.  A suffix is empty or one lowercase letter.
\<close>

definition suffix_ok :: "ustring \<Rightarrow> bool" where
  "suffix_ok s = (case s of [] \<Rightarrow> True | [c] \<Rightarrow> 97 \<le> c \<and> c \<le> 122 | _ \<Rightarrow> False)"

definition locus_less :: "nat \<times> nat \<times> ustring \<Rightarrow> nat \<times> nat \<times> ustring \<Rightarrow> bool" where
  "locus_less x y =
     (case (x, y) of ((b, n, s), (b', n', s')) \<Rightarrow>
        b < b' \<or> (b = b' \<and> (n < n' \<or> (n = n' \<and> str_less s s'))))"

section \<open>\<open>sounds_per_word\<close>\<close>

text \<open>The character class \<open>[^\<alpha>-\<omega> ]\<close> removes what is neither in 945..969 nor a space.\<close>

definition kept :: "codepoint \<Rightarrow> bool" where
  "kept c \<longleftrightarrow> (945 \<le> c \<and> c \<le> 969) \<or> c = 32"

text \<open>\<open>for k, v in table.items(): text = re.sub(k, v, text)\<close>\<close>

definition substitute :: "(ustring, ustring) dict \<Rightarrow> ustring \<Rightarrow> ustring" where
  "substitute table text = foldl (\<lambda>text (k, v). re_sub k v text) text table"

text \<open>
  The first half of \<open>sounds_per_word\<close>, up to and including the loop over
  \<open>replacements\<close>: the canonical sound string of a word.
\<close>

definition canonical :: "pylib \<Rightarrow> pyobj \<Rightarrow> ustring" where
  "canonical L word =
     (let word = (case word of PyStr s \<Rightarrow> s | _ \<Rightarrow> []);
          decomposed_text = unicode_nfkd L word;
          decomposed_text = py_strip (str_lower L decomposed_text);
          breathing = (if 788 \<in> set decomposed_text then [104] else []);
          decomposed_text = breathing @ py_strip (filter kept decomposed_text)
      in substitute replacements decomposed_text)"

text \<open>\<open>reverse_replacements.get(char, char)\<close> for a one-character string.\<close>

definition spelling :: "codepoint \<Rightarrow> ustring" where
  "spelling c = dict_get reverse_replacements [c] [c]"

text \<open>\<open>for char in decomposed_text: count[key] = count.get(key, 0) + 1\<close>\<close>

fun count_chars :: "ustring \<Rightarrow> (ustring, int) dict \<Rightarrow> (ustring, int) dict" where
  "count_chars [] count = count"
| "count_chars (char # rest) count =
     (let key = spelling char in count_chars rest (dict_set count key (dict_get count key 0 + 1)))"

text \<open>\<open>s[0]\<close> raises IndexError on the empty string.\<close>

definition first_char :: "ustring \<Rightarrow> error + codepoint" where
  "first_char s = (case s of [] \<Rightarrow> Inl IndexError | c # _ \<Rightarrow> Inr c)"

text \<open>The second half of \<open>sounds_per_word\<close>, from the check for the empty string on.\<close>

definition tally :: "ustring \<Rightarrow> error + (ustring, int) dict" where
  "tally decomposed_text =
     (if decomposed_text = [] then Inr []
      else case first_char decomposed_text of
             Inl e \<Rightarrow> Inl e
           | Inr first_letter \<Rightarrow>
               Inr (count_chars decomposed_text (dict_set [] (95 # spelling first_letter) 1)))"

definition sounds_per_word :: "pylib \<Rightarrow> pyobj \<Rightarrow> error + (ustring, int) dict" where
  "sounds_per_word L word = tally (canonical L word)"

text \<open>An onset key is a key that begins with the underscore.\<close>

definition onset_key :: "ustring \<Rightarrow> bool" where
  "onset_key k = (case k of [] \<Rightarrow> False | c # _ \<Rightarrow> c = 95)"

section \<open>Labelling the speeches\<close>

text \<open>
  A row of the table of verse lines (one field for each of the columns \<open>id\<close>,
  \<open>book\<close>, \<open>line\<close>, \<open>text\<close>, \<open>label\<close>) and a speech as the remote service
  returns it, with its first and last line as \<open>"book.line"\<close>.
\<close>

record verse =
  v_id :: ustring
  v_book :: ustring
  v_line :: ustring
  v_text :: ustring
  v_label :: string

record speech =
  l_fi :: ustring
  l_la :: ustring

text \<open>\<open>s.split(".")\<close> with the separator 46.\<close>

fun py_split :: "codepoint \<Rightarrow> ustring \<Rightarrow> ustring list" where
  "py_split sep [] = [[]]"
| "py_split sep (c # cs) =
     (if c = sep then [] # py_split sep cs
      else case py_split sep cs of [] \<Rightarrow> [[c]] | p # ps \<Rightarrow> (c # p) # ps)"

text \<open>\<open>a, b = xs\<close> raises ValueError unless \<open>xs\<close> has exactly two elements.\<close>

definition unpack2 :: "'a list \<Rightarrow> error + ('a \<times> 'a)" where
  "unpack2 xs = (case xs of [a, b] \<Rightarrow> Inr (a, b) | _ \<Rightarrow> Inl ValueError)"

text \<open>The body of the loop up to \<open>id_last\<close>: the two keys of a speech.\<close>

definition speech_range :: "pylib \<Rightarrow> speech \<Rightarrow> error + (ustring \<times> ustring)" where
  "speech_range L s =
     (case unpack2 (py_split 46 (l_fi s)) of
        Inl e \<Rightarrow> Inl e
      | Inr (book_first, line_first) \<Rightarrow>
     (case unpack2 (py_split 46 (l_la s)) of
        Inl e \<Rightarrow> Inl e
      | Inr (book_last, line_last) \<Rightarrow>
     (case create_id L (PyStr book_first) line_first of
        Inl e \<Rightarrow> Inl e
      | Inr id_first \<Rightarrow>
     (case create_id L (PyStr book_last) line_last of
        Inl e \<Rightarrow> Inl e
      | Inr id_last \<Rightarrow> Inr (id_first, id_last)))))"

text \<open>\<open>Series.between(left, right)\<close>: both ends included.\<close>

definition between :: "ustring \<Rightarrow> ustring \<Rightarrow> ustring \<Rightarrow> bool" where
  "between left right x \<longleftrightarrow> str_le left x \<and> str_le x right"

text \<open>
  \<open>lines.loc[lines["id"].between(id_first, id_last), "label"] = "speech"\<close> on a table
  with rows.  (The table is built from the list of rows; built from the empty list it has
  no column \<open>id\<close>, and \<open>lines["id"]\<close> raises KeyError: see the loop.)
\<close>

definition mark_speech :: "ustring \<Rightarrow> ustring \<Rightarrow> verse list \<Rightarrow> verse list" where
  "mark_speech id_first id_last lines =
     map (\<lambda>r. if between id_first id_last (v_id r) then r\<lparr>v_label := ''speech''\<rparr> else r) lines"

fun label_speeches :: "pylib \<Rightarrow> verse list \<Rightarrow> speech list \<Rightarrow> error + verse list" where
  "label_speeches L lines [] = Inr lines"
| "label_speeches L lines (s # ss) =
     (case speech_range L s of
        Inl e \<Rightarrow> Inl e
      | Inr (id_first, id_last) \<Rightarrow>
          if lines = [] then Inl KeyError
          else label_speeches L (mark_speech id_first id_last lines) ss)"

text \<open>\<open>lines["label"] = "narration"\<close>, then the loop over the speeches.\<close>

definition label_lines :: "pylib \<Rightarrow> verse list \<Rightarrow> speech list \<Rightarrow> error + verse list" where
  "label_lines L lines speeches =
     label_speeches L (map (\<lambda>r. r\<lparr>v_label := ''narration''\<rparr>) lines) speeches"

section \<open>A library instance for the examples\<close>

text \<open>
  A fragment of the Unicode tables, enough to run the definitions on the words of the
  examples: the decompositions of alpha and omicron with rough breathing (U+1F01, U+1F09,
  U+1F41) and of alpha with acute (U+03AC), the lowercase of the ASCII capitals and of
  the Greek capitals other than sigma (whose lowercase depends on its position), no
  decimal digit beyond ASCII, and no numeral other than a run of ASCII digits.
\<close>

definition sample_decomposition :: "codepoint \<Rightarrow> ustring" where
  "sample_decomposition c =
     (if c = 7937 then [945, 788] else if c = 7945 then [913, 788]
      else if c = 8001 then [959, 788] else if c = 940 then [945, 769] else [c])"

definition sample_lower :: "codepoint \<Rightarrow> codepoint" where
  "sample_lower c =
     (if 65 \<le> c \<and> c \<le> 90 then c + 32
      else if 913 \<le> c \<and> c \<le> 937 \<and> c \<noteq> 930 \<and> c \<noteq> 931 then c + 32 else c)"

definition sample_lib :: pylib where
  "sample_lib =
     \<lparr>unicode_nfkd = (\<lambda>s. concat (map sample_decomposition s)),
      str_lower = map sample_lower,
      nonascii_decimal = (\<lambda>c. False),
      int_other = (\<lambda>s. None)\<rparr>"

section \<open>Properties of the tables\<close>

lemma reverse_replacements_eq:
  "reverse_replacements =
     [([79], [959, 953]), ([921], [945, 953]), ([101], [949, 953]), ([89], [965, 953]),
      ([913], [945, 965]), ([117], [949, 965]), ([85], [959, 965])]"
  by (simp add: reverse_replacements_def reversible_def)

lemma replacements_eq: "replacements = reversible @ one_time"
  by (simp add: replacements_def reversible_def one_time_def)

lemma substitute_append: "substitute (t1 @ t2) text = substitute t2 (substitute t1 text)"
  by (simp add: substitute_def)

lemma reversible_keys: "(k, v) \<in> set reversible \<Longrightarrow> length k = 2 \<and> length v = 1"
  by (auto simp: reversible_def)

lemma one_time_keys: "(k, v) \<in> set one_time \<Longrightarrow> length k = 1 \<and> length v = 1"
  by (auto simp: one_time_def)

text \<open>
  C4: the combined table is the seven digraph rules followed by the four one-letter
  rules, in that order of insertion; every rule with a two-character pattern stands
  before every rule with a one-character pattern, so the loop substitutes all digraphs
  before any single letter; and no one-letter rule reads or writes a letter of a digraph.
\<close>

theorem replacements_digraphs_first:
  "replacements = reversible @ one_time
   \<and> (\<forall>(k, v) \<in> set reversible. length k = 2)
   \<and> (\<forall>(k, v) \<in> set one_time. length k = 1)
   \<and> (\<forall>i j. i < length replacements \<and> j < length replacements
          \<and> length (fst (replacements ! i)) = 2 \<and> length (fst (replacements ! j)) = 1
          \<longrightarrow> i < j)
   \<and> (\<forall>text. substitute replacements text = substitute one_time (substitute reversible text))
   \<and> (\<forall>(k1, v1) \<in> set one_time. \<forall>(k2, v2) \<in> set reversible.
          set k1 \<inter> set k2 = {} \<and> set v1 \<inter> set k2 = {})"
proof (intro conjI allI impI)
  show "replacements = reversible @ one_time" by (rule replacements_eq)
  show "\<forall>(k, v) \<in> set reversible. length k = 2" using reversible_keys by blast
  show "\<forall>(k, v) \<in> set one_time. length k = 1" using one_time_keys by blast
  show "substitute replacements t = substitute one_time (substitute reversible t)" for t
    by (simp add: replacements_eq substitute_append)
  show "\<forall>(k1, v1) \<in> set one_time. \<forall>(k2, v2) \<in> set reversible.
          set k1 \<inter> set k2 = {} \<and> set v1 \<inter> set k2 = {}"
    by (simp add: one_time_def reversible_def)
next
  fix i j
  assume a: "i < length replacements \<and> j < length replacements
          \<and> length (fst (replacements ! i)) = 2 \<and> length (fst (replacements ! j)) = 1"
  have i: "i < length reversible"
  proof (rule ccontr)
    assume "\<not> i < length reversible"
    moreover from a have "i < length reversible + length one_time"
      by (simp add: replacements_eq)
    ultimately have "i - length reversible < length one_time"
      by arith
    then have "one_time ! (i - length reversible) \<in> set one_time"
      by (rule nth_mem)
    with \<open>\<not> i < length reversible\<close> have "replacements ! i \<in> set one_time"
      by (simp add: replacements_eq nth_append)
    then have "length (fst (replacements ! i)) = 1"
      using one_time_keys [of "fst (replacements ! i)" "snd (replacements ! i)"] by simp
    with a show False by simp
  qed
  have j: "\<not> j < length reversible"
  proof
    assume "j < length reversible"
    then have "replacements ! j \<in> set reversible"
      by (simp add: replacements_eq nth_append)
    then have "length (fst (replacements ! j)) = 2"
      using reversible_keys [of "fst (replacements ! j)" "snd (replacements ! j)"] by simp
    with a show False by simp
  qed
  from i j show "i < j" by simp
qed

theorem replacements_digraphs_first_witness:
  "length (fst (replacements ! 6)) = 2 \<and> length (fst (replacements ! 7)) = 1 \<and> (6::nat) < 7
   \<and> substitute replacements [952, 959, 953] = [964, 79]"
  using replacements_digraphs_first
  by (simp add: replacements_eq reversible_def one_time_def substitute_def)

section \<open>Properties of \<open>create_id\<close>\<close>

subsection \<open>Matching the line number\<close>

lemma ascii_digits_decimal: "ascii_digits ds \<Longrightarrow> list_all (is_decimal L) ds"
  by (auto simp: ascii_digits_def list_all_iff is_decimal_def)

lemma letter_not_decimal: "97 \<le> c \<Longrightarrow> c \<le> 122 \<Longrightarrow> \<not> is_decimal L c"
  by (simp add: is_decimal_def)

lemma re_match_line_letter:
  assumes "ds \<noteq> []" and "list_all (is_decimal L) ds" and "97 \<le> c" and "c \<le> 122"
  shows "re_match_line L (ds @ c # rest) = Some (ds, [c])"
proof -
  from assms have nd: "\<not> is_decimal L c" by (simp add: letter_not_decimal)
  from assms have all: "\<And>x. x \<in> set ds \<Longrightarrow> is_decimal L x" by (simp add: list_all_iff)
  have "takeWhile (is_decimal L) (ds @ c # rest) = ds"
    using all nd by (simp add: takeWhile_append2)
  moreover have "dropWhile (is_decimal L) (ds @ c # rest) = c # rest"
    using all nd by (simp add: dropWhile_append2)
  ultimately show ?thesis using assms by (simp add: re_match_line_def)
qed

lemma re_match_line_digits:
  assumes "list_all (is_decimal L) ds"
  shows "re_match_line L ds = None"
proof -
  from assms have "dropWhile (is_decimal L) ds = []" by (simp add: list_all_iff)
  then show ?thesis by (simp add: re_match_line_def del: dropWhile_eq_Nil_conv)
qed

lemma line_parts_letter:
  "ds \<noteq> [] \<Longrightarrow> list_all (is_decimal L) ds \<Longrightarrow> 97 \<le> c \<Longrightarrow> c \<le> 122 \<Longrightarrow>
   line_parts L (ds @ c # rest) = (ds, [c])"
  by (simp add: line_parts_def re_match_line_letter)

lemma line_parts_digits: "list_all (is_decimal L) ds \<Longrightarrow> line_parts L ds = (ds, [])"
  by (simp add: line_parts_def re_match_line_digits)

lemma line_parts_no_match: "re_match_line L line = None \<Longrightarrow> line_parts L line = (line, [])"
  by (simp add: line_parts_def)

subsection \<open>Zero-padded numerals\<close>

lemma digits10_1: "n < 10 \<Longrightarrow> digits10 n = [48 + n]"
  by (simp add: digits10.simps)

lemma digits10_2: "10 \<le> n \<Longrightarrow> n < 100 \<Longrightarrow> digits10 n = [48 + n div 10, 48 + n mod 10]"
  by (subst digits10.simps) (simp add: digits10_1)

lemma digits10_3:
  "100 \<le> n \<Longrightarrow> n < 1000 \<Longrightarrow> digits10 n = [48 + n div 100, 48 + n div 10 mod 10, 48 + n mod 10]"
  by (subst digits10.simps) (simp add: digits10_2 div_mult2_eq [symmetric])

lemma fmt_d_2: "b \<le> 99 \<Longrightarrow> fmt_d 2 (int b) = [48 + b div 10, 48 + b mod 10]"
proof -
  assume b: "b \<le> 99"
  show ?thesis
  proof (cases "b < 10")
    case True
    then show ?thesis by (simp add: fmt_d_def zfill_def digits10_1)
  next
    case False
    with b show ?thesis by (simp add: fmt_d_def zfill_def digits10_2)
  qed
qed

lemma fmt_d_3:
  assumes n: "n \<le> 999"
  shows "fmt_d 3 (int n) = [48 + n div 100, 48 + n div 10 mod 10, 48 + n mod 10]"
proof -
  consider "n < 10" | "10 \<le> n" "n < 100" | "100 \<le> n" "n < 1000"
    using n by linarith
  then show ?thesis
  proof cases
    case 1
    then show ?thesis by (simp add: fmt_d_def zfill_def digits10_1 numeral_3_eq_3)
  next
    case 2
    then show ?thesis by (simp add: fmt_d_def zfill_def digits10_2)
  next
    case 3
    then show ?thesis by (simp add: fmt_d_def zfill_def digits10_3)
  qed
qed

lemma create_id_parts:
  assumes "line_parts L line = (numeric, letter)"
    and "py_int L book = Inr b" and "py_int_str L numeric = Some n"
  shows "create_id L book line = Inr (fmt_d 2 b @ [95] @ fmt_d 3 n @ letter)"
  using assms by (simp add: create_id_def py_int_def)

lemma create_id_depends_on_parts:
  "line_parts L line = line_parts L line' \<Longrightarrow> create_id L book line = create_id L book line'"
  by (simp add: create_id_def)

text \<open>
  C10: when the line starts with a run of decimal digits followed by a lowercase letter,
  whatever comes after that letter is ignored: the key is the one of the digit run plus
  the letter, and it is returned (no error) whenever the book and the digit run are
  numerals.  In particular \<open>create_id(1, "23bc")\<close> is \<open>"01_023b"\<close>.
\<close>

theorem create_id_ignores_tail:
  assumes "ds \<noteq> []" and "list_all (is_decimal L) ds" and "97 \<le> c" and "c \<le> 122"
  shows "create_id L book (ds @ c # rest) = create_id L book (ds @ [c])
    \<and> (\<forall>b n. py_int L book = Inr b \<and> py_int_str L ds = Some n \<longrightarrow>
          create_id L book (ds @ c # rest) = Inr (fmt_d 2 b @ [95] @ fmt_d 3 n @ [c]))
    \<and> create_id L (PyInt 1) [50, 51, 98, 99] = Inr [48, 49, 95, 48, 50, 51, 98]"
proof (intro conjI allI impI)
  have parts: "line_parts L (ds @ c # rest) = (ds, [c])" for rest
    using assms by (rule line_parts_letter)
  show "create_id L book (ds @ c # rest) = create_id L book (ds @ [c])"
    by (rule create_id_depends_on_parts) (simp only: parts)
  show "create_id L book (ds @ c # rest) = Inr (fmt_d 2 b @ [95] @ fmt_d 3 n @ [c])"
    if "py_int L book = Inr b \<and> py_int_str L ds = Some n" for b n
    using parts that by (simp add: create_id_parts)
  have "line_parts L ([50, 51] @ 98 # [99]) = ([50, 51], [98])"
    by (rule line_parts_letter) (simp_all add: is_decimal_def)
  moreover have "py_int L (PyInt 1) = Inr 1"
    by (simp add: py_int_def)
  moreover have "py_int_str L [50, 51] = Some 23"
    by (simp add: py_int_str_def ascii_digits_def dec_value_def)
  ultimately have "create_id L (PyInt 1) ([50, 51] @ 98 # [99])
      = Inr (fmt_d 2 1 @ [95] @ fmt_d 3 23 @ [98])"
    by (rule create_id_parts)
  moreover have "fmt_d 2 1 = [48, 49]" using fmt_d_2 [of 1] by simp
  moreover have "fmt_d 3 23 = [48, 50, 51]" using fmt_d_3 [of 23] by simp
  ultimately show "create_id L (PyInt 1) [50, 51, 98, 99] = Inr [48, 49, 95, 48, 50, 51, 98]"
    by simp
qed

theorem create_id_ignores_tail_witness:
  "create_id sample_lib (PyStr [49, 50]) [50, 51, 98, 55]
     = create_id sample_lib (PyStr [49, 50]) [50, 51, 98]
   \<and> create_id sample_lib (PyStr [49, 50]) [50, 51, 98, 55] = Inr [49, 50, 95, 48, 50, 51, 98]"
proof -
  have ne: "[50, 51] \<noteq> ([] :: ustring)" by simp
  have ds: "list_all (is_decimal sample_lib) [50, 51]"
    by (simp add: is_decimal_def)
  have c: "(97::nat) \<le> 98" "(98::nat) \<le> 122" by simp_all
  have b: "py_int sample_lib (PyStr [49, 50]) = Inr 12"
    by (simp add: py_int_def py_int_str_def ascii_digits_def dec_value_def)
  have n: "py_int_str sample_lib [50, 51] = Some 23"
    by (simp add: py_int_str_def ascii_digits_def dec_value_def)
  have f2: "fmt_d 2 12 = [49, 50]" using fmt_d_2 [of 12] by simp
  have f3: "fmt_d 3 23 = [48, 50, 51]" using fmt_d_3 [of 23] by simp
  note T = create_id_ignores_tail [OF ne ds c, of "PyStr [49, 50]" "[55]"]
  from T have A: "create_id sample_lib (PyStr [49, 50]) [50, 51, 98, 55]
     = create_id sample_lib (PyStr [49, 50]) [50, 51, 98]"
    by simp
  from T b n have "create_id sample_lib (PyStr [49, 50]) ([50, 51] @ 98 # [55])
          = Inr (fmt_d 2 12 @ [95] @ fmt_d 3 23 @ [98])"
    by blast
  then have B: "create_id sample_lib (PyStr [49, 50]) [50, 51, 98, 55]
     = Inr [49, 50, 95, 48, 50, 51, 98]"
    by (simp add: f2 f3)
  from A B show ?thesis by blast
qed

text \<open>
  C8: when the line does not match the pattern and is not a numeral, \<open>create_id\<close>
  returns no key: it raises, and the error is ValueError unless the book is \<open>None\<close>
  (whose conversion raises first).
\<close>

theorem create_id_unparsable:
  assumes "re_match_line L line = None" and "py_int_str L line = None"
  shows "(\<exists>e. create_id L book line = Inl e)
    \<and> (book \<noteq> PyNone \<longrightarrow> create_id L book line = Inl ValueError)"
proof -
  from assms(1) have parts: "line_parts L line = (line, [])"
    by (rule line_parts_no_match)
  show ?thesis
  proof (cases book)
    case PyNone
    then show ?thesis by (simp add: create_id_def parts py_int_def)
  next
    case (PyInt i)
    then show ?thesis using assms(2) by (simp add: create_id_def parts py_int_def)
  next
    case (PyStr s)
    then show ?thesis using assms(2)
      by (simp add: create_id_def parts py_int_def split: option.split)
  qed
qed

theorem create_id_unparsable_witness:
  "re_match_line sample_lib [120, 55] = None \<and> py_int_str sample_lib [120, 55] = None
   \<and> create_id sample_lib (PyInt 1) [120, 55] = Inl ValueError"
proof -
  have m: "re_match_line sample_lib [120, 55] = None"
    by (simp add: re_match_line_def is_decimal_def)
  have p: "py_int_str sample_lib [120, 55] = None"
    by (simp add: py_int_str_def ascii_digits_def sample_lib_def)
  from create_id_unparsable [OF m p, of "PyInt 1"] m p show ?thesis by simp
qed

subsection \<open>Keys and their order\<close>

lemma str_less_append:
  "length a = length a' \<Longrightarrow>
   str_less (a @ s) (a' @ s') \<longleftrightarrow> str_less a a' \<or> (a = a' \<and> str_less s s')"
  by (induction a a' rule: list_induct2) auto

lemma two_digits_less:
  fixes b b' :: nat
  shows "(b div 10 < b' div 10 \<or> (b div 10 = b' div 10 \<and> b mod 10 < b' mod 10)) \<longleftrightarrow> b < b'"
proof -
  define q r q' r' where defs: "q = b div 10" "r = b mod 10" "q' = b' div 10" "r' = b' mod 10"
  have "b = 10 * q + r" "r < 10" "b' = 10 * q' + r'" "r' < 10"
    by (simp_all add: defs)
  then have "(q < q' \<or> (q = q' \<and> r < r')) \<longleftrightarrow> b < b'"
    by arith
  then show ?thesis by (simp add: defs)
qed

lemma two_digits_eq:
  fixes b b' :: nat
  shows "(b div 10 = b' div 10 \<and> b mod 10 = b' mod 10) \<longleftrightarrow> b = b'"
  by (metis div_mult_mod_eq)

lemma three_digits_split:
  fixes n :: nat
  shows "n = 100 * (n div 100) + 10 * (n div 10 mod 10) + n mod 10"
proof -
  have "n div 10 = 10 * (n div 10 div 10) + n div 10 mod 10" by simp
  moreover have "n div 10 div 10 = n div 100" by (simp add: div_mult2_eq [symmetric])
  moreover have "n = 10 * (n div 10) + n mod 10" by simp
  ultimately show ?thesis by arith
qed

lemma three_digits_less:
  fixes n n' :: nat
  shows "(n div 100 < n' div 100 \<or> (n div 100 = n' div 100 \<and>
           (n div 10 mod 10 < n' div 10 mod 10 \<or>
             (n div 10 mod 10 = n' div 10 mod 10 \<and> n mod 10 < n' mod 10)))) \<longleftrightarrow> n < n'"
proof -
  define a c d where defs: "a = n div 100" "c = n div 10 mod 10" "d = n mod 10"
  define a' c' d' where defs': "a' = n' div 100" "c' = n' div 10 mod 10" "d' = n' mod 10"
  have "n = 100 * a + 10 * c + d" "n' = 100 * a' + 10 * c' + d'"
    unfolding defs defs' by (rule three_digits_split)+
  moreover have "c < 10" "d < 10" "c' < 10" "d' < 10"
    by (simp_all add: defs defs')
  ultimately have "(a < a' \<or> (a = a' \<and> (c < c' \<or> (c = c' \<and> d < d')))) \<longleftrightarrow> n < n'"
    by arith
  then show ?thesis by (simp add: defs defs')
qed

lemma three_digits_eq:
  fixes n n' :: nat
  shows "(n div 100 = n' div 100 \<and> n div 10 mod 10 = n' div 10 mod 10 \<and> n mod 10 = n' mod 10)
     \<longleftrightarrow> n = n'"
  by (metis three_digits_split)

lemma str_less_two_digits:
  "str_less [48 + b div 10, 48 + b mod 10] [48 + b' div 10, 48 + b' mod 10] \<longleftrightarrow> b < b'"
  using two_digits_less [of b b'] by simp

lemma str_less_three_digits:
  "str_less [48 + n div 100, 48 + n div 10 mod 10, 48 + n mod 10]
            [48 + n' div 100, 48 + n' div 10 mod 10, 48 + n' mod 10] \<longleftrightarrow> n < n'"
  using three_digits_less [of n n'] by simp

lemma eq_two_digits:
  "[48 + b div 10, 48 + b mod 10] = [48 + b' div 10, 48 + b' mod 10] \<longleftrightarrow> b = (b'::nat)"
  using two_digits_eq [of b b'] by simp

lemma eq_three_digits:
  "[48 + n div 100, 48 + n div 10 mod 10, 48 + n mod 10]
     = [48 + n' div 100, 48 + n' div 10 mod 10, 48 + n' mod 10] \<longleftrightarrow> n = (n'::nat)"
  using three_digits_eq [of n n'] by simp

lemma key_less:
  assumes "b \<le> 99" "n \<le> 999" "b' \<le> 99" "n' \<le> 999"
  shows "str_less (fmt_d 2 (int b) @ [95] @ fmt_d 3 (int n) @ s)
                  (fmt_d 2 (int b') @ [95] @ fmt_d 3 (int n') @ s')
         \<longleftrightarrow> locus_less (b, n, s) (b', n', s')"
proof -
  let ?two = "\<lambda>b::nat. [48 + b div 10, 48 + b mod 10]"
  let ?three = "\<lambda>n::nat. [48 + n div 100, 48 + n div 10 mod 10, 48 + n mod 10]"
  have "str_less (?two b @ 95 # (?three n @ s)) (?two b' @ 95 # (?three n' @ s'))
        \<longleftrightarrow> str_less (?two b) (?two b')
            \<or> (?two b = ?two b' \<and> str_less (95 # (?three n @ s)) (95 # (?three n' @ s')))"
    by (rule str_less_append) simp
  also have "str_less (95 # (?three n @ s)) (95 # (?three n' @ s'))
        \<longleftrightarrow> str_less (?three n @ s) (?three n' @ s')"
    by simp
  also have "str_less (?three n @ s) (?three n' @ s')
        \<longleftrightarrow> str_less (?three n) (?three n') \<or> (?three n = ?three n' \<and> str_less s s')"
    by (rule str_less_append) simp
  finally have "str_less (?two b @ 95 # (?three n @ s)) (?two b' @ 95 # (?three n' @ s'))
        \<longleftrightarrow> b < b' \<or> (b = b' \<and> (n < n' \<or> (n = n' \<and> str_less s s')))"
    by (simp only: str_less_two_digits str_less_three_digits eq_two_digits eq_three_digits)
  then show ?thesis
    using assms by (simp add: fmt_d_2 fmt_d_3 locus_less_def)
qed

lemma create_id_key:
  assumes "py_int L book = Inr b" and "ascii_digits ds" and "py_int_str L ds = Some n"
    and "suffix_ok sfx"
  shows "create_id L book (ds @ sfx) = Inr (fmt_d 2 b @ [95] @ fmt_d 3 n @ sfx)"
proof -
  from assms(2) have ds: "ds \<noteq> []" "list_all (is_decimal L) ds"
    by (simp_all add: ascii_digits_decimal) (simp add: ascii_digits_def)
  from assms(4) consider "sfx = []" | c where "sfx = [c]" "97 \<le> c" "c \<le> 122"
    by (auto simp: suffix_ok_def split: list.splits)
  then have "line_parts L (ds @ sfx) = (ds, sfx)"
  proof cases
    case 1
    then show ?thesis using ds by (simp add: line_parts_digits)
  next
    case 2
    then show ?thesis using ds by (simp add: line_parts_letter)
  qed
  then show ?thesis using assms(1,3) by (rule create_id_parts)
qed

lemma create_id_example_1_7: "create_id L (PyInt 1) [55] = Inr [48, 49, 95, 48, 48, 55]"
proof -
  have "create_id L (PyInt 1) ([55] @ []) = Inr (fmt_d 2 1 @ [95] @ fmt_d 3 7 @ [])"
    by (rule create_id_key)
      (simp_all add: py_int_def py_int_str_def ascii_digits_def dec_value_def suffix_ok_def)
  then show ?thesis using fmt_d_2 [of 1] fmt_d_3 [of 7] by simp
qed

lemma create_id_example_1_8: "create_id L (PyInt 1) [56] = Inr [48, 49, 95, 48, 48, 56]"
proof -
  have "create_id L (PyInt 1) ([56] @ []) = Inr (fmt_d 2 1 @ [95] @ fmt_d 3 8 @ [])"
    by (rule create_id_key)
      (simp_all add: py_int_def py_int_str_def ascii_digits_def dec_value_def suffix_ok_def)
  then show ?thesis using fmt_d_2 [of 1] fmt_d_3 [of 8] by simp
qed

lemma create_id_example_2_1: "create_id L (PyInt 2) [49] = Inr [48, 50, 95, 48, 48, 49]"
proof -
  have "create_id L (PyInt 2) ([49] @ []) = Inr (fmt_d 2 2 @ [95] @ fmt_d 3 1 @ [])"
    by (rule create_id_key)
      (simp_all add: py_int_def py_int_str_def ascii_digits_def dec_value_def suffix_ok_def)
  then show ?thesis using fmt_d_2 [of 2] fmt_d_3 [of 1] by simp
qed

lemma create_id_example_12_23b:
  "create_id L (PyInt 12) [50, 51, 98] = Inr [49, 50, 95, 48, 50, 51, 98]"
proof -
  have "create_id L (PyInt 12) ([50, 51] @ [98]) = Inr (fmt_d 2 12 @ [95] @ fmt_d 3 23 @ [98])"
    by (rule create_id_key)
      (simp_all add: py_int_def py_int_str_def ascii_digits_def dec_value_def suffix_ok_def)
  then show ?thesis using fmt_d_2 [of 12] fmt_d_3 [of 23] by simp
qed

text \<open>
  C6: for a book number from 0 to 99 and a line that is a run of ASCII digits with a
  value from 0 to 999, followed by nothing or by one lowercase letter, \<open>create_id\<close>
  returns book (two digits), underscore, line (three digits), suffix: six characters plus
  the suffix.  Two such keys compare as strings the way their loci compare by book, line
  and suffix.  The keys of (1, "7"), (12, "23b"), (1, "8") and (2, "1") are
  \<open>01_007\<close>, \<open>12_023b\<close>, \<open>01_008\<close> and \<open>02_001\<close>, and
  \<open>01_007\<close> < \<open>01_008\<close> < \<open>02_001\<close>.
\<close>

theorem create_id_fixed_width_order:
  assumes "py_int L book = Inr (int b)" and "b \<le> 99"
    and "ascii_digits ds" and "py_int_str L ds = Some (int n)" and "n \<le> 999"
    and "suffix_ok sfx"
    and "py_int L book' = Inr (int b')" and "b' \<le> 99"
    and "ascii_digits ds'" and "py_int_str L ds' = Some (int n')" and "n' \<le> 999"
    and "suffix_ok sfx'"
  shows "create_id L book (ds @ sfx) = Inr (fmt_d 2 (int b) @ [95] @ fmt_d 3 (int n) @ sfx)
    \<and> length (fmt_d 2 (int b) @ [95] @ fmt_d 3 (int n) @ sfx) = 6 + length sfx
    \<and> (\<exists>key key'. create_id L book (ds @ sfx) = Inr key
          \<and> create_id L book' (ds' @ sfx') = Inr key'
          \<and> (str_less key key' \<longleftrightarrow> locus_less (b, n, sfx) (b', n', sfx')))
    \<and> create_id L (PyInt 1) [55] = Inr [48, 49, 95, 48, 48, 55]
    \<and> create_id L (PyInt 12) [50, 51, 98] = Inr [49, 50, 95, 48, 50, 51, 98]
    \<and> create_id L (PyInt 1) [56] = Inr [48, 49, 95, 48, 48, 56]
    \<and> create_id L (PyInt 2) [49] = Inr [48, 50, 95, 48, 48, 49]
    \<and> str_less [48, 49, 95, 48, 48, 55] [48, 49, 95, 48, 48, 56]
    \<and> str_less [48, 49, 95, 48, 48, 56] [48, 50, 95, 48, 48, 49]"
proof -
  have k: "create_id L book (ds @ sfx) = Inr (fmt_d 2 (int b) @ [95] @ fmt_d 3 (int n) @ sfx)"
    using assms(1,3,4,6) by (rule create_id_key)
  have k': "create_id L book' (ds' @ sfx') = Inr (fmt_d 2 (int b') @ [95] @ fmt_d 3 (int n') @ sfx')"
    using assms(7,9,10,12) by (rule create_id_key)
  have len: "length (fmt_d 2 (int b) @ [95] @ fmt_d 3 (int n) @ sfx) = 6 + length sfx"
    using assms(2,5) by (simp add: fmt_d_2 fmt_d_3)
  have ord: "str_less (fmt_d 2 (int b) @ [95] @ fmt_d 3 (int n) @ sfx)
                  (fmt_d 2 (int b') @ [95] @ fmt_d 3 (int n') @ sfx')
         \<longleftrightarrow> locus_less (b, n, sfx) (b', n', sfx')"
    using assms(2,5,8,11) by (rule key_less)
  have ex: "\<exists>key key'. create_id L book (ds @ sfx) = Inr key
          \<and> create_id L book' (ds' @ sfx') = Inr key'
          \<and> (str_less key key' \<longleftrightarrow> locus_less (b, n, sfx) (b', n', sfx'))"
    using k k' ord by blast
  have less: "str_less [48, 49, 95, 48, 48, 55] [48, 49, 95, 48, 48, 56]"
    "str_less [48, 49, 95, 48, 48, 56] [48, 50, 95, 48, 48, 49]"
    by simp_all
  show ?thesis
    using k len ex less create_id_example_1_7 create_id_example_12_23b create_id_example_1_8
      create_id_example_2_1
    by blast
qed

theorem create_id_fixed_width_order_witness:
  "create_id sample_lib (PyStr [49, 50]) [50, 51, 98] = Inr [49, 50, 95, 48, 50, 51, 98]
   \<and> create_id sample_lib (PyInt 3) [56, 48, 48] = Inr [48, 51, 95, 56, 48, 48]
   \<and> \<not> str_less [49, 50, 95, 48, 50, 51, 98] [48, 51, 95, 56, 48, 48]
   \<and> \<not> locus_less (12, 23, [98]) (3, 800, [])"
proof -
  have b: "py_int sample_lib (PyStr [49, 50]) = Inr (int 12)"
    by (simp add: py_int_def py_int_str_def ascii_digits_def dec_value_def)
  have n: "py_int_str sample_lib [50, 51] = Some (int 23)"
    by (simp add: py_int_str_def ascii_digits_def dec_value_def)
  have b': "py_int sample_lib (PyInt 3) = Inr (int 3)"
    by (simp add: py_int_def)
  have n': "py_int_str sample_lib [56, 48, 48] = Some (int 800)"
    by (simp add: py_int_str_def ascii_digits_def dec_value_def)
  have d: "ascii_digits [50, 51]" "ascii_digits [56, 48, 48]"
    by (simp_all add: ascii_digits_def)
  have s: "suffix_ok [98]" "suffix_ok []"
    by (simp_all add: suffix_ok_def)
  have le: "(12::nat) \<le> 99" "(23::nat) \<le> 999" "(3::nat) \<le> 99" "(800::nat) \<le> 999"
    by simp_all
  have f: "fmt_d 2 12 = [49, 50]" "fmt_d 3 23 = [48, 50, 51]"
    "fmt_d 2 3 = [48, 51]" "fmt_d 3 800 = [56, 48, 48]"
    using fmt_d_2 [of 12] fmt_d_3 [of 23] fmt_d_2 [of 3] fmt_d_3 [of 800] by simp_all
  note T = create_id_fixed_width_order [OF b le(1) d(1) n le(2) s(1) b' le(3) d(2) n' le(4) s(2)]
  from T have "create_id sample_lib (PyStr [49, 50]) ([50, 51] @ [98])
      = Inr (fmt_d 2 (int 12) @ [95] @ fmt_d 3 (int 23) @ [98])"
    by (rule conjunct1)
  then have k: "create_id sample_lib (PyStr [49, 50]) [50, 51, 98] = Inr [49, 50, 95, 48, 50, 51, 98]"
    by (simp add: f)
  have k': "create_id sample_lib (PyInt 3) [56, 48, 48] = Inr [48, 51, 95, 56, 48, 48]"
    using create_id_key [OF b' d(2) n' s(2)] by (simp add: f)
  have "\<not> str_less [49, 50, 95, 48, 50, 51, 98] [48, 51, 95, 56, 48, 48]" by simp
  moreover have "\<not> locus_less (12, 23, [98]) (3, 800, [])" by (simp add: locus_less_def)
  ultimately show ?thesis using k k' by blast
qed

section \<open>Properties of \<open>sounds_per_word\<close>\<close>

subsection \<open>Spellings\<close>

lemma spelling_cases:
  "spelling c =
     (if c = 79 then [959, 953] else if c = 921 then [945, 953] else if c = 101 then [949, 953]
      else if c = 89 then [965, 953] else if c = 913 then [945, 965]
      else if c = 117 then [949, 965] else if c = 85 then [959, 965] else [c])"
  by (simp add: spelling_def reverse_replacements_eq)

lemma spelling_not_onset: "c \<noteq> 95 \<Longrightarrow> \<not> onset_key (spelling c)"
  by (simp add: spelling_cases onset_key_def)

lemma spelling_of_surrogate:
  assumes "(d, s) \<in> set reversible"
  shows "\<exists>c. s = [c] \<and> spelling c = d"
proof -
  from assms consider "d = [959, 953]" "s = [79]" | "d = [945, 953]" "s = [921]"
    | "d = [949, 953]" "s = [101]" | "d = [965, 953]" "s = [89]" | "d = [945, 965]" "s = [913]"
    | "d = [949, 965]" "s = [117]" | "d = [959, 965]" "s = [85]"
    unfolding reversible_def by fastforce
  then show ?thesis
    by cases (simp_all add: spelling_cases)
qed

subsection \<open>Counting\<close>

lemma count_chars_replicate:
  "k \<noteq> spelling c \<Longrightarrow>
   count_chars (replicate n c) [(k, 1), (spelling c, m)] = [(k, 1), (spelling c, m + int n)]"
  by (induction n arbitrary: m) (simp_all add: Let_def)

lemma tally_replicate:
  "tally (replicate (Suc n) c) = Inr [(95 # spelling c, 1), (spelling c, int (Suc n))]"
proof -
  have ne: "95 # spelling c \<noteq> spelling c" by simp
  have "count_chars (replicate (Suc n) c) [(95 # spelling c, 1)]
        = count_chars (replicate n c) [(95 # spelling c, 1), (spelling c, 1)]"
    using ne by (simp add: Let_def)
  also have "\<dots> = [(95 # spelling c, 1), (spelling c, 1 + int n)]"
    using ne by (rule count_chars_replicate)
  finally show ?thesis by (simp add: tally_def first_char_def)
qed

text \<open>
  C2: for a digraph \<open>d\<close> with surrogate \<open>s\<close> in \<open>reversible\<close> and \<open>N \<ge> 1\<close>, the
  tally of \<open>s\<close> repeated \<open>N\<close> times is the dict with the two items
  \<open>"_" + d: 1\<close> (inserted first) and \<open>d: N\<close>.
\<close>

theorem tally_surrogate_roundtrip:
  assumes "(d, s) \<in> set reversible" and "1 \<le> N"
  shows "tally (concat (replicate N s)) = Inr [(95 # d, 1), (d, int N)]"
proof -
  from assms(1) obtain c where c: "s = [c]" "spelling c = d"
    using spelling_of_surrogate by blast
  from assms(2) obtain n where n: "N = Suc n"
    by (cases N) simp_all
  have "concat (replicate N s) = replicate (Suc n) c"
    unfolding c n by (induction n) simp_all
  then show ?thesis
    using tally_replicate [of n c] by (simp add: c n)
qed

theorem tally_surrogate_roundtrip_witness:
  "([959, 953], [79]) \<in> set reversible
   \<and> tally [79, 79, 79] = Inr [([95, 959, 953], 1), ([959, 953], 3)]"
proof -
  have m: "([959, 953], [79]) \<in> set reversible" by (simp add: reversible_def)
  have N: "(1::nat) \<le> 3" by simp
  have e: "concat (replicate 3 [79::nat]) = [79, 79, 79]" by (simp add: numeral_3_eq_3)
  have "tally (concat (replicate 3 [79])) = Inr [(95 # [959, 953], 1), ([959, 953], int 3)]"
    using m N by (rule tally_surrogate_roundtrip)
  then have "tally [79, 79, 79] = Inr [([95, 959, 953], 1), ([959, 953], 3)]"
    unfolding e by simp
  with m show ?thesis by blast
qed

subsection \<open>Stripping\<close>

lemma set_py_strip_subset: "set (py_strip s) \<subseteq> set s"
proof -
  have "set (dropWhile py_isspace (rev (dropWhile py_isspace s))) \<subseteq> set (rev (dropWhile py_isspace s))"
    by (rule set_dropWhileD [THEN subsetI])
  also have "\<dots> \<subseteq> set s"
    using set_dropWhileD [of _ py_isspace s] by auto
  finally show ?thesis by (simp add: py_strip_def)
qed

lemma in_set_dropWhile: "x \<in> set xs \<Longrightarrow> \<not> P x \<Longrightarrow> x \<in> set (dropWhile P xs)"
  by (induction xs) auto

lemma in_set_py_strip: "c \<in> set s \<Longrightarrow> \<not> py_isspace c \<Longrightarrow> c \<in> set (py_strip s)"
  by (simp add: py_strip_def in_set_dropWhile)

lemma dropWhile_all: "\<forall>x \<in> set xs. P x \<Longrightarrow> dropWhile P xs = []"
  by simp

lemma dropWhile_none: "\<forall>x \<in> set xs. \<not> P x \<Longrightarrow> dropWhile P xs = xs"
  by (cases xs) simp_all

lemma py_strip_all_space: "\<forall>c \<in> set s. py_isspace c \<Longrightarrow> py_strip s = []"
  by (simp add: py_strip_def dropWhile_all del: dropWhile_eq_Nil_conv)

lemma py_strip_no_space:
  assumes "\<forall>c \<in> set s. \<not> py_isspace c"
  shows "py_strip s = s"
proof -
  from assms have "dropWhile py_isspace s = s" by (rule dropWhile_none)
  moreover from assms have "dropWhile py_isspace (rev s) = rev s"
    by (intro dropWhile_none) simp
  ultimately show ?thesis by (simp add: py_strip_def)
qed

lemma py_strip_Nil: "py_strip [] = []"
  by (simp add: py_strip_def)

lemma breathing_not_space: "\<not> py_isspace 788"
  by (simp add: py_isspace_def)

lemma greek_not_space: "945 \<le> c \<Longrightarrow> c \<le> 969 \<Longrightarrow> \<not> py_isspace c"
  by (simp add: py_isspace_def)

lemma space_is_space: "py_isspace 32"
  by (simp add: py_isspace_def)

subsection \<open>Substitution\<close>

lemma set_re_sub: "k \<noteq> [] \<Longrightarrow> set (re_sub k v t) \<subseteq> set t \<union> set v"
proof (induction k v t rule: re_sub.induct)
  case (1 k v)
  then show ?case by simp
next
  case (2 k v c cs)
  show ?case
  proof (cases "take (length k) (c # cs) = k")
    case True
    with 2 have "set (re_sub k v (drop (length k - 1) cs)) \<subseteq> set (drop (length k - 1) cs) \<union> set v"
      by simp
    moreover have "set (drop (length k - 1) cs) \<subseteq> set cs"
      by (rule set_drop_subset)
    ultimately show ?thesis using True 2(4) by auto
  next
    case False
    with 2 show ?thesis by auto
  qed
qed

lemma re_sub_other_head:
  "k \<noteq> [] \<Longrightarrow> hd k \<noteq> c \<Longrightarrow> re_sub k v (c # t) = c # re_sub k v t"
  by (cases k) auto

lemma re_sub_absent: "k \<noteq> [] \<Longrightarrow> hd k \<notin> set t \<Longrightarrow> re_sub k v t = t"
proof (induction t)
  case Nil
  then show ?case by simp
next
  case (Cons c t)
  then have "re_sub k v (c # t) = c # re_sub k v t"
    by (intro re_sub_other_head) auto
  with Cons show ?case by simp
qed

lemma set_substitute:
  "\<forall>(k, v) \<in> set table. k \<noteq> [] \<Longrightarrow>
   set (substitute table t) \<subseteq> set t \<union> (\<Union>(k, v) \<in> set table. set v)"
proof (induction table arbitrary: t)
  case Nil
  then show ?case by (simp add: substitute_def)
next
  case (Cons r table)
  obtain k v where r: "r = (k, v)" by (cases r)
  with Cons.prems have k: "k \<noteq> []" by simp
  have "substitute (r # table) t = substitute table (re_sub k v t)"
    by (simp add: substitute_def r)
  moreover have "set (substitute table (re_sub k v t))
      \<subseteq> set (re_sub k v t) \<union> (\<Union>(k, v) \<in> set table. set v)"
    using Cons.prems by (intro Cons.IH) simp
  moreover have "set (re_sub k v t) \<subseteq> set t \<union> set v"
    using k by (rule set_re_sub)
  ultimately show ?case by (auto simp: r)
qed

lemma substitute_other_head:
  "\<forall>(k, v) \<in> set table. k \<noteq> [] \<and> hd k \<noteq> c \<Longrightarrow>
   substitute table (c # t) = c # substitute table t"
proof (induction table arbitrary: t)
  case Nil
  then show ?case by (simp add: substitute_def)
next
  case (Cons r table)
  obtain k v where r: "r = (k, v)" by (cases r)
  with Cons.prems have "re_sub k v (c # t) = c # re_sub k v t"
    by (intro re_sub_other_head) auto
  moreover have "substitute table (c # re_sub k v t) = c # substitute table (re_sub k v t)"
    using Cons.prems by (intro Cons.IH) simp
  ultimately show ?case by (simp add: substitute_def r)
qed

lemma substitute_absent:
  "\<forall>(k, v) \<in> set table. k \<noteq> [] \<and> hd k \<notin> set t \<Longrightarrow> substitute table t = t"
proof (induction table)
  case Nil
  then show ?case by (simp add: substitute_def)
next
  case (Cons r table)
  obtain k v where r: "r = (k, v)" by (cases r)
  with Cons.prems have "re_sub k v t = t"
    by (intro re_sub_absent) auto
  moreover have "substitute table t = t"
    using Cons.prems by (intro Cons.IH) simp
  ultimately show ?case by (simp add: substitute_def r)
qed

lemma substitute_Nil: "substitute replacements [] = []"
  by (simp add: substitute_def replacements_eq reversible_def one_time_def)

lemma replacements_patterns:
  "(k, v) \<in> set replacements \<Longrightarrow> k \<noteq> [] \<and> 945 \<le> hd k \<and> hd k \<le> 969"
  by (auto simp: replacements_eq reversible_def one_time_def)

lemma replacements_values:
  "(k, v) \<in> set replacements \<Longrightarrow> c \<in> set v \<Longrightarrow>
   kept c \<or> c \<in> {79, 921, 101, 89, 913, 117, 85}"
  by (auto simp: replacements_eq reversible_def one_time_def kept_def)

subsection \<open>The canonical sound string\<close>

lemma canonical_PyStr:
  "canonical L (PyStr w) =
     substitute replacements
       ((if 788 \<in> set (py_strip (str_lower L (unicode_nfkd L w))) then [104] else [])
         @ py_strip (filter kept (py_strip (str_lower L (unicode_nfkd L w)))))"
  by (simp add: canonical_def Let_def)

lemma canonical_not_str: "\<forall>s. w \<noteq> PyStr s \<Longrightarrow> canonical L w = canonical L (PyStr [])"
  by (cases w) (simp_all add: canonical_def)

lemma canonical_chars:
  assumes "c \<in> set (canonical L w)"
  shows "c = 104 \<or> kept c \<or> c \<in> {79, 921, 101, 89, 913, 117, 85}"
proof -
  obtain s where "canonical L w = canonical L (PyStr s)"
    using canonical_not_str [of w L] by (cases w) auto
  with assms have c: "c \<in> set (canonical L (PyStr s))" by simp
  let ?t = "py_strip (str_lower L (unicode_nfkd L s))"
  let ?x = "(if 788 \<in> set ?t then [104] else []) @ py_strip (filter kept ?t)"
  have "set (substitute replacements ?x) \<subseteq> set ?x \<union> (\<Union>(k, v) \<in> set replacements. set v)"
    using replacements_patterns by (intro set_substitute) blast
  with c consider "c \<in> set ?x" | k v where "(k, v) \<in> set replacements" "c \<in> set v"
    unfolding canonical_PyStr by blast
  then show ?thesis
  proof cases
    case 1
    then have "c = 104 \<or> c \<in> set (py_strip (filter kept ?t))"
      by (auto split: if_splits)
    moreover have "set (py_strip (filter kept ?t)) \<subseteq> set (filter kept ?t)"
      by (rule set_py_strip_subset)
    ultimately show ?thesis by auto
  next
    case 2
    then show ?thesis using replacements_values by blast
  qed
qed

lemma canonical_no_underscore: "95 \<notin> set (canonical L w)"
  using canonical_chars [of 95 L w] by (auto simp: kept_def)

lemma canonical_no_breathing: "788 \<notin> set (canonical L w)"
  using canonical_chars [of 788 L w] by (auto simp: kept_def)

lemma substitute_h: "substitute replacements (104 # t) = 104 # substitute replacements t"
proof (rule substitute_other_head)
  show "\<forall>(k, v) \<in> set replacements. k \<noteq> [] \<and> hd k \<noteq> 104"
    using replacements_patterns by fastforce
qed

lemma no_letters_stripped:
  assumes "\<forall>c \<in> set t. \<not> (945 \<le> c \<and> c \<le> 969)"
  shows "py_strip (filter kept t) = []"
proof (rule py_strip_all_space)
  from assms show "\<forall>c \<in> set (filter kept t). py_isspace c"
    by (auto simp: kept_def space_is_space)
qed

lemma tally_h: "tally [104] = Inr [([95, 104], 1), ([104], 1)]"
  by (simp add: tally_def first_char_def spelling_cases Let_def)

lemma tally_total: "\<exists>count. tally s = Inr count"
  by (cases s) (simp_all add: tally_def first_char_def)

text \<open>
  C5: when the rough breathing (788) occurs in the decomposed, lowercased word, the
  canonical sound string begins with \<open>h\<close> (104) and holds no breathing mark; when the
  decomposed word has moreover no letter from alpha to omega, the profile is
  \<open>{"_h": 1, "h": 1}\<close>.
\<close>

theorem rough_breathing_h:
  assumes "788 \<in> set (str_lower L (unicode_nfkd L w))"
  shows "(\<exists>rest. canonical L (PyStr w) = 104 # rest)
    \<and> 788 \<notin> set (canonical L (PyStr w))
    \<and> ((\<forall>c \<in> set (str_lower L (unicode_nfkd L w)). \<not> (945 \<le> c \<and> c \<le> 969)) \<longrightarrow>
         sounds_per_word L (PyStr w) = Inr [([95, 104], 1), ([104], 1)])"
proof (intro conjI impI)
  let ?t = "py_strip (str_lower L (unicode_nfkd L w))"
  from assms have b: "788 \<in> set ?t"
    by (rule in_set_py_strip) (rule breathing_not_space)
  then have can: "canonical L (PyStr w) = 104 # substitute replacements (py_strip (filter kept ?t))"
    by (simp add: canonical_PyStr substitute_h)
  then show "\<exists>rest. canonical L (PyStr w) = 104 # rest" by blast
  show "788 \<notin> set (canonical L (PyStr w))" by (rule canonical_no_breathing)
  assume "\<forall>c \<in> set (str_lower L (unicode_nfkd L w)). \<not> (945 \<le> c \<and> c \<le> 969)"
  then have "\<forall>c \<in> set ?t. \<not> (945 \<le> c \<and> c \<le> 969)"
    using set_py_strip_subset [of "str_lower L (unicode_nfkd L w)"] by blast
  then have "py_strip (filter kept ?t) = []" by (rule no_letters_stripped)
  with can have "canonical L (PyStr w) = [104]" by (simp add: substitute_Nil)
  then show "sounds_per_word L (PyStr w) = Inr [([95, 104], 1), ([104], 1)]"
    by (simp add: sounds_per_word_def tally_h)
qed

theorem rough_breathing_h_witness:
  "788 \<in> set (str_lower sample_lib (unicode_nfkd sample_lib [46, 788, 33]))
   \<and> canonical sample_lib (PyStr [46, 788, 33]) = [104]
   \<and> sounds_per_word sample_lib (PyStr [46, 788, 33]) = Inr [([95, 104], 1), ([104], 1)]"
proof -
  have d: "str_lower sample_lib (unicode_nfkd sample_lib [46, 788, 33]) = [46, 788, 33]"
    by (simp add: sample_lib_def sample_decomposition_def sample_lower_def)
  have b: "788 \<in> set (str_lower sample_lib (unicode_nfkd sample_lib [46, 788, 33]))"
    by (simp add: d)
  have g: "\<forall>c \<in> set (str_lower sample_lib (unicode_nfkd sample_lib [46, 788, 33])).
      \<not> (945 \<le> c \<and> c \<le> 969)"
    by (simp add: d)
  from rough_breathing_h [OF b] g
  have s: "sounds_per_word sample_lib (PyStr [46, 788, 33]) = Inr [([95, 104], 1), ([104], 1)]"
    by blast
  have "canonical sample_lib (PyStr [46, 788, 33]) = [104]"
    by (simp add: canonical_PyStr d py_strip_def py_isspace_def kept_def substitute_h substitute_Nil)
  with b s show ?thesis by blast
qed

text \<open>
  C9: \<open>sounds_per_word\<close> returns a dict for every input, it never raises (the index
  \<open>[0]\<close> is only reached on a non-empty string).  The dict is empty whenever the
  canonical sound string is empty; that is the case for a word whose decomposed,
  lowercased text has neither a letter from alpha to omega nor a rough breathing, and for
  every input that is not a string, which is treated as the empty word (NFKD and \<open>lower\<close>
  leave the empty string empty).
\<close>

theorem sounds_per_word_degenerate:
  "(\<exists>count. sounds_per_word L w = Inr count)
   \<and> (canonical L w = [] \<longrightarrow> sounds_per_word L w = Inr [])
   \<and> ((\<forall>s. w \<noteq> PyStr s) \<longrightarrow> sounds_per_word L w = sounds_per_word L (PyStr []))
   \<and> ((\<forall>s. w \<noteq> PyStr s) \<and> unicode_nfkd L [] = [] \<and> str_lower L [] = [] \<longrightarrow>
        sounds_per_word L w = Inr [])
   \<and> ((\<forall>c \<in> set (str_lower L (unicode_nfkd L s)). \<not> (945 \<le> c \<and> c \<le> 969) \<and> c \<noteq> 788) \<longrightarrow>
        sounds_per_word L (PyStr s) = Inr [])"
proof (intro conjI impI)
  show "\<exists>count. sounds_per_word L w = Inr count"
    unfolding sounds_per_word_def by (rule tally_total)
  show "sounds_per_word L w = Inr []" if "canonical L w = []"
    using that by (simp add: sounds_per_word_def tally_def)
  show "sounds_per_word L w = sounds_per_word L (PyStr [])" if "\<forall>s. w \<noteq> PyStr s"
    using that by (simp add: sounds_per_word_def canonical_not_str)
  show "sounds_per_word L w = Inr []"
    if "(\<forall>s. w \<noteq> PyStr s) \<and> unicode_nfkd L [] = [] \<and> str_lower L [] = []"
  proof -
    from that have "canonical L w = canonical L (PyStr [])"
      by (simp add: canonical_not_str)
    also from that have "\<dots> = []"
      by (simp add: canonical_PyStr py_strip_Nil substitute_Nil)
    finally show ?thesis by (simp add: sounds_per_word_def tally_def)
  qed
  show "sounds_per_word L (PyStr s) = Inr []"
    if a: "\<forall>c \<in> set (str_lower L (unicode_nfkd L s)). \<not> (945 \<le> c \<and> c \<le> 969) \<and> c \<noteq> 788"
  proof -
    let ?t = "py_strip (str_lower L (unicode_nfkd L s))"
    from a have t: "\<forall>c \<in> set ?t. \<not> (945 \<le> c \<and> c \<le> 969) \<and> c \<noteq> 788"
      using set_py_strip_subset [of "str_lower L (unicode_nfkd L s)"] by blast
    then have "788 \<notin> set ?t" by blast
    moreover from t have "py_strip (filter kept ?t) = []"
      by (intro no_letters_stripped) blast
    ultimately have "canonical L (PyStr s) = []"
      by (simp add: canonical_PyStr substitute_Nil)
    then show ?thesis by (simp add: sounds_per_word_def tally_def)
  qed
qed

theorem sounds_per_word_degenerate_witness:
  "sounds_per_word sample_lib PyNone = Inr []
   \<and> sounds_per_word sample_lib (PyInt 7) = Inr []
   \<and> sounds_per_word sample_lib (PyStr [49, 50, 33]) = Inr []"
proof -
  have e: "unicode_nfkd sample_lib [] = []" "str_lower sample_lib [] = []"
    by (simp_all add: sample_lib_def)
  have "sounds_per_word sample_lib PyNone = Inr []"
    using sounds_per_word_degenerate [of sample_lib PyNone] e by simp
  moreover have "sounds_per_word sample_lib (PyInt 7) = Inr []"
    using sounds_per_word_degenerate [of sample_lib "PyInt 7"] e by simp
  moreover have "sounds_per_word sample_lib (PyStr [49, 50, 33]) = Inr []"
  proof -
    have d: "str_lower sample_lib (unicode_nfkd sample_lib [49, 50, 33]) = [49, 50, 33]"
      by (simp add: sample_lib_def sample_decomposition_def sample_lower_def)
    have "\<forall>c \<in> set (str_lower sample_lib (unicode_nfkd sample_lib [49, 50, 33])).
        \<not> (945 \<le> c \<and> c \<le> 969) \<and> c \<noteq> 788"
      by (simp add: d)
    with sounds_per_word_degenerate [of sample_lib _ "[49, 50, 33]"] show ?thesis
      by blast
  qed
  ultimately show ?thesis by blast
qed

subsection \<open>The counting loop\<close>

lemma keys_dict_set:
  "map fst (dict_set d k v) = (if k \<in> set (map fst d) then map fst d else map fst d @ [k])"
proof (induction d)
  case Nil
  show ?case by simp
next
  case (Cons r d)
  obtain k' v' where r: "r = (k', v')" by (cases r)
  show ?case
  proof (cases "k' = k")
    case True
    then show ?thesis by (simp add: r)
  next
    case False
    with Cons show ?thesis by (simp add: r)
  qed
qed

lemma distinct_dict_set: "distinct (map fst d) \<Longrightarrow> distinct (map fst (dict_set d k v))"
  by (simp add: keys_dict_set)

lemma onset_dict_set:
  "\<not> onset_key k \<Longrightarrow>
   filter (\<lambda>(k, v). onset_key k) (dict_set d k v) = filter (\<lambda>(k, v). onset_key k) d"
  by (induction d) auto

lemma total_dict_set_value:
  "\<not> onset_key k \<Longrightarrow>
   sum_list (map snd (filter (\<lambda>(k, v). \<not> onset_key k) (dict_set d k v)))
     = sum_list (map snd (filter (\<lambda>(k, v). \<not> onset_key k) d)) - dict_get d k 0 + (v::int)"
proof (induction d)
  case Nil
  then show ?case by simp
next
  case (Cons r d)
  obtain k' v' where r: "r = (k', v')" by (cases r)
  show ?case
  proof (cases "k' = k")
    case True
    with Cons.prems show ?thesis by (simp add: r)
  next
    case False
    with Cons show ?thesis by (simp add: r)
  qed
qed

lemma total_dict_set:
  "\<not> onset_key k \<Longrightarrow>
   sum_list (map snd (filter (\<lambda>(k, v). \<not> onset_key k) (dict_set d k (dict_get d k 0 + 1))))
     = sum_list (map snd (filter (\<lambda>(k, v). \<not> onset_key k) d)) + (1::int)"
  by (simp add: total_dict_set_value)

lemma distinct_count_chars:
  "distinct (map fst d) \<Longrightarrow> distinct (map fst (count_chars cs d))"
  by (induction cs arbitrary: d) (simp_all add: Let_def distinct_dict_set)

lemma onset_count_chars:
  "95 \<notin> set cs \<Longrightarrow>
   filter (\<lambda>(k, v). onset_key k) (count_chars cs d) = filter (\<lambda>(k, v). onset_key k) d"
proof (induction cs arbitrary: d)
  case Nil
  then show ?case by simp
next
  case (Cons c cs)
  then have "\<not> onset_key (spelling c)" by (intro spelling_not_onset) auto
  with Cons show ?case by (simp add: Let_def onset_dict_set)
qed

lemma total_count_chars:
  "95 \<notin> set cs \<Longrightarrow>
   sum_list (map snd (filter (\<lambda>(k, v). \<not> onset_key k) (count_chars cs d)))
     = sum_list (map snd (filter (\<lambda>(k, v). \<not> onset_key k) d)) + int (length cs)"
proof (induction cs arbitrary: d)
  case Nil
  then show ?case by simp
next
  case (Cons c cs)
  then have "\<not> onset_key (spelling c)" by (intro spelling_not_onset) auto
  with Cons show ?case by (simp add: Let_def total_dict_set)
qed

lemma tally_profile:
  assumes "s \<noteq> []" and "95 \<notin> set s"
  shows "\<exists>count. tally s = Inr count \<and> distinct (map fst count)
     \<and> filter (\<lambda>(k, v). onset_key k) count = [(95 # spelling (hd s), 1)]
     \<and> sum_list (map snd (filter (\<lambda>(k, v). \<not> onset_key k) count)) = int (length s)"
proof -
  let ?d = "[(95 # spelling (hd s), 1::int)]"
  from assms(1) have t: "tally s = Inr (count_chars s ?d)"
    by (cases s) (simp_all add: tally_def first_char_def)
  have "distinct (map fst (count_chars s ?d))"
    by (rule distinct_count_chars) simp
  moreover have "filter (\<lambda>(k, v). onset_key k) (count_chars s ?d) = ?d"
  proof -
    have "filter (\<lambda>(k, v). onset_key k) (count_chars s ?d) = filter (\<lambda>(k, v). onset_key k) ?d"
      using assms(2) by (rule onset_count_chars)
    also have "\<dots> = ?d" by (simp add: onset_key_def)
    finally show ?thesis .
  qed
  moreover have "sum_list (map snd (filter (\<lambda>(k, v). \<not> onset_key k) (count_chars s ?d)))
      = int (length s)"
  proof -
    have "sum_list (map snd (filter (\<lambda>(k, v). \<not> onset_key k) (count_chars s ?d)))
      = sum_list (map snd (filter (\<lambda>(k, v). \<not> onset_key k) ?d)) + int (length s)"
      using assms(2) by (rule total_count_chars)
    also have "filter (\<lambda>(k, v). \<not> onset_key k) ?d = []" by (simp add: onset_key_def)
    finally show ?thesis by simp
  qed
  ultimately show ?thesis using t by blast
qed

text \<open>
  C1: when the canonical sound string of the word is not empty, \<open>sounds_per_word\<close>
  returns a dict (with distinct keys) whose only item with an onset key is
  \<open>"_" +\<close> the spelling of the first sound, with value 1, and whose other values add
  up to the length of the canonical sound string.
\<close>

theorem sounds_per_word_onset_and_total:
  assumes "canonical L w \<noteq> []"
  shows "\<exists>count. sounds_per_word L w = Inr count \<and> distinct (map fst count)
     \<and> filter (\<lambda>(k, v). onset_key k) count = [(95 # spelling (hd (canonical L w)), 1)]
     \<and> sum_list (map snd (filter (\<lambda>(k, v). \<not> onset_key k) count))
         = int (length (canonical L w))"
  unfolding sounds_per_word_def using assms canonical_no_underscore by (rule tally_profile)

lemma canonical_sample_word:
  "canonical sample_lib (PyStr [7945, 959, 953, 952, 959, 953]) = [104, 945, 79, 964, 79]"
  by (simp add: canonical_PyStr sample_lib_def sample_decomposition_def sample_lower_def
      py_strip_def py_isspace_def kept_def substitute_def replacements_eq reversible_def
      one_time_def)

theorem sounds_per_word_onset_and_total_witness:
  "canonical sample_lib (PyStr [7945, 959, 953, 952, 959, 953]) = [104, 945, 79, 964, 79]
   \<and> (\<exists>count. sounds_per_word sample_lib (PyStr [7945, 959, 953, 952, 959, 953]) = Inr count
        \<and> filter (\<lambda>(k, v). onset_key k) count = [([95, 104], 1)]
        \<and> sum_list (map snd (filter (\<lambda>(k, v). \<not> onset_key k) count)) = 5)"
proof -
  let ?w = "PyStr [7945, 959, 953, 952, 959, 953]"
  have ne: "canonical sample_lib ?w \<noteq> []"
    by (simp add: canonical_sample_word)
  have sp: "95 # spelling (hd (canonical sample_lib ?w)) = [95, 104]"
    by (simp add: canonical_sample_word spelling_cases)
  have len: "int (length (canonical sample_lib ?w)) = 5"
    by (simp add: canonical_sample_word)
  from sounds_per_word_onset_and_total [OF ne] obtain count where
    "sounds_per_word sample_lib ?w = Inr count"
    "filter (\<lambda>(k, v). onset_key k) count = [(95 # spelling (hd (canonical sample_lib ?w)), 1)]"
    "sum_list (map snd (filter (\<lambda>(k, v). \<not> onset_key k) count))
       = int (length (canonical sample_lib ?w))"
    by blast
  then have "sounds_per_word sample_lib ?w = Inr count
        \<and> filter (\<lambda>(k, v). onset_key k) count = [([95, 104], 1)]
        \<and> sum_list (map snd (filter (\<lambda>(k, v). \<not> onset_key k) count)) = 5"
    unfolding sp len by blast
  with canonical_sample_word show ?thesis by blast
qed

subsection \<open>Words that are already plain lowercase letters\<close>

lemma canonical_plain:
  assumes "\<forall>c \<in> set w. 945 \<le> c \<and> c \<le> 969"
    and "unicode_nfkd L w = w" and "str_lower L w = w"
  shows "canonical L (PyStr w) = substitute replacements w"
proof -
  from assms(1) have "\<forall>c \<in> set w. \<not> py_isspace c"
    by (simp add: greek_not_space)
  then have strip: "py_strip w = w" by (rule py_strip_no_space)
  from assms(1) have nb: "788 \<notin> set w" by auto
  from assms(1) have "filter kept w = w" by (simp add: kept_def)
  with strip nb show ?thesis
    by (simp add: canonical_PyStr assms(2,3))
qed

lemma reversible_values:
  "(k, v) \<in> set reversible \<Longrightarrow> c \<in> set v \<Longrightarrow> c \<in> {79, 921, 101, 89, 913, 117, 85}"
  by (auto simp: reversible_def)

lemma one_time_absent:
  assumes "set t \<inter> {962, 952, 967, 966} = {}"
  shows "substitute one_time t = t"
proof (rule substitute_absent)
  from assms show "\<forall>(k, v) \<in> set one_time. k \<noteq> [] \<and> hd k \<notin> set t"
    by (auto simp: one_time_def)
qed

text \<open>
  C3 as stated fails: theta is a lowercase letter of the alphabet without diacritics, NFKD
  and \<open>lower\<close> leave it alone, and normalization turns it into tau, which is not a
  digraph substitution.
\<close>

theorem normalize_theta_counterexample:
  "945 \<le> (952::nat) \<and> (952::nat) \<le> 969
   \<and> unicode_nfkd sample_lib [952] = [952] \<and> str_lower sample_lib [952] = [952]
   \<and> substitute reversible [952] = [952]
   \<and> canonical sample_lib (PyStr [952]) = [964]
   \<and> canonical sample_lib (PyStr [952]) \<noteq> substitute reversible [952]"
proof -
  have l: "unicode_nfkd sample_lib [952] = [952]" "str_lower sample_lib [952] = [952]"
    by (simp_all add: sample_lib_def sample_decomposition_def sample_lower_def)
  have r: "substitute reversible [952] = [952]"
    by (simp add: substitute_def reversible_def)
  have "canonical sample_lib (PyStr [952]) = substitute replacements [952]"
    using l by (intro canonical_plain) simp_all
  also have "\<dots> = [964]"
    by (simp add: substitute_def replacements_eq reversible_def one_time_def)
  finally have c: "canonical sample_lib (PyStr [952]) = [964]" .
  from l r c show ?thesis by simp
qed

text \<open>
  C3, amended: for a word made of the letters alpha to omega only, which NFKD and
  \<open>lower\<close> leave unchanged, normalization returns the word with the digraphs
  substituted and then the four letters final sigma, theta, chi and phi merged into
  sigma, tau, kappa and pi; a word without these four letters is returned unchanged
  except for the digraph substitution.  The profile depends on the canonical sound string
  only: the same canonical string gives the same profile.
\<close>

theorem normalize_plain_greek:
  assumes "\<forall>c \<in> set w. 945 \<le> c \<and> c \<le> 969"
    and "unicode_nfkd L w = w" and "str_lower L w = w"
  shows "canonical L (PyStr w) = substitute one_time (substitute reversible w)
    \<and> (set w \<inter> {962, 952, 967, 966} = {} \<longrightarrow> canonical L (PyStr w) = substitute reversible w)
    \<and> (\<forall>w'. canonical L w' = canonical L (PyStr w) \<longrightarrow>
          sounds_per_word L w' = sounds_per_word L (PyStr w))"
proof (intro conjI impI allI)
  show c: "canonical L (PyStr w) = substitute one_time (substitute reversible w)"
    using assms by (simp add: canonical_plain replacements_eq substitute_append)
  show "sounds_per_word L w' = sounds_per_word L (PyStr w)"
    if "canonical L w' = canonical L (PyStr w)" for w'
    using that by (simp add: sounds_per_word_def)
  assume a: "set w \<inter> {962, 952, 967, 966} = {}"
  have "set (substitute reversible w) \<subseteq> set w \<union> (\<Union>(k, v) \<in> set reversible. set v)"
    using reversible_keys by (intro set_substitute) fastforce
  also have "\<dots> \<subseteq> set w \<union> {79, 921, 101, 89, 913, 117, 85}"
    using reversible_values by blast
  finally have "set (substitute reversible w) \<inter> {962, 952, 967, 966} = {}"
    using a by auto
  then have "substitute one_time (substitute reversible w) = substitute reversible w"
    by (rule one_time_absent)
  with c show "canonical L (PyStr w) = substitute reversible w" by simp
qed

theorem normalize_plain_greek_witness:
  "canonical sample_lib (PyStr [952, 949, 959, 953]) = [964, 949, 79]
   \<and> canonical sample_lib (PyStr [955, 959, 953]) = [955, 79]
   \<and> substitute reversible [955, 959, 953] = [955, 79]"
proof -
  have l: "unicode_nfkd sample_lib w = w" "str_lower sample_lib w = w"
    if "\<forall>c \<in> set w. 945 \<le> c \<and> c \<le> 969" for w
    using that
    by (induction w) (simp_all add: sample_lib_def sample_decomposition_def sample_lower_def)
  have g1: "\<forall>c \<in> set [952, 949, 959, 953]. 945 \<le> c \<and> c \<le> (969::nat)" by simp
  have g2: "\<forall>c \<in> set [955, 959, 953]. 945 \<le> c \<and> c \<le> (969::nat)" by simp
  have n2: "set [955, 959, 953] \<inter> {962, 952, 967, 966::nat} = {}" by simp
  have s1: "substitute one_time (substitute reversible [952, 949, 959, 953]) = [964, 949, 79]"
    by (simp add: substitute_def reversible_def one_time_def)
  have s2: "substitute reversible [955, 959, 953] = [955, 79]"
    by (simp add: substitute_def reversible_def)
  from normalize_plain_greek [OF g1 l(1) [OF g1] l(2) [OF g1]] s1
  have "canonical sample_lib (PyStr [952, 949, 959, 953]) = [964, 949, 79]" by simp
  moreover from normalize_plain_greek [OF g2 l(1) [OF g2] l(2) [OF g2]] n2
  have "canonical sample_lib (PyStr [955, 959, 953]) = substitute reversible [955, 959, 953]"
    by blast
  then have "canonical sample_lib (PyStr [955, 959, 953]) = [955, 79]"
    by (simp only: s2)
  ultimately show ?thesis using s2 by blast
qed

section \<open>Properties of the labelling\<close>

subsection \<open>String comparison\<close>

lemma str_less_irrefl: "\<not> str_less a a"
  by (induction a) simp_all

lemma str_less_trans: "str_less a b \<Longrightarrow> str_less b c \<Longrightarrow> str_less a c"
proof (induction a arbitrary: b c)
  case Nil
  then show ?case by (cases b; cases c) simp_all
next
  case (Cons x xs)
  show ?case
  proof (cases b)
    case Nil
    with Cons.prems show ?thesis by simp
  next
    case b: (Cons y ys)
    show ?thesis
    proof (cases c)
      case Nil
      with Cons.prems b show ?thesis by simp
    next
      case c: (Cons z zs)
      from Cons.prems have "x < y \<or> (x = y \<and> str_less xs ys)" "y < z \<or> (y = z \<and> str_less ys zs)"
        by (simp_all add: b c)
      then have "x < z \<or> (x = z \<and> str_less xs zs)"
        using Cons.IH [of ys zs] by auto
      then show ?thesis by (simp add: c)
    qed
  qed
qed

lemma between_empty:
  assumes "str_less right left"
  shows "\<not> between left right x"
proof
  assume "between left right x"
  then have "str_le left x" "str_le x right" by (simp_all add: between_def)
  then have "left = right \<or> str_less left right"
    unfolding str_le_def using str_less_trans by blast
  with assms show False
    using str_less_irrefl str_less_trans by blast
qed

subsection \<open>The loop over the speeches\<close>

lemma label_speeches_result:
  assumes "\<forall>s \<in> set speeches. \<exists>r. speech_range L s = Inr r" and "rows \<noteq> []"
  shows "label_speeches L rows speeches =
     Inr (map (\<lambda>r. if (\<exists>s \<in> set speeches. \<exists>a b. speech_range L s = Inr (a, b) \<and> between a b (v_id r))
                    then r\<lparr>v_label := ''speech''\<rparr> else r) rows)"
  using assms
proof (induction speeches arbitrary: rows)
  case Nil
  then show ?case by simp
next
  case (Cons s ss)
  then obtain a b where ab: "speech_range L s = Inr (a, b)" by fastforce
  let ?P = "\<lambda>x. \<exists>s \<in> set ss. \<exists>a b. speech_range L s = Inr (a, b) \<and> between a b x"
  have "label_speeches L (mark_speech a b rows) ss =
     Inr (map (\<lambda>r. if ?P (v_id r) then r\<lparr>v_label := ''speech''\<rparr> else r) (mark_speech a b rows))"
    using Cons.prems by (intro Cons.IH) (simp_all add: mark_speech_def)
  also have "map (\<lambda>r. if ?P (v_id r) then r\<lparr>v_label := ''speech''\<rparr> else r) (mark_speech a b rows)
      = map (\<lambda>r. if between a b (v_id r) \<or> ?P (v_id r) then r\<lparr>v_label := ''speech''\<rparr> else r) rows"
    by (auto simp: mark_speech_def)
  finally show ?case using Cons.prems(2) by (simp add: ab)
qed

lemma speech_range_example:
  "speech_range L \<lparr>l_fi = [49, 46, 50], l_la = [49, 46, 51]\<rparr>
     = Inr ([48, 49, 95, 48, 48, 50], [48, 49, 95, 48, 48, 51])"
proof -
  have b: "py_int L (PyStr [49]) = Inr 1"
    by (simp add: py_int_def py_int_str_def ascii_digits_def dec_value_def)
  have "create_id L (PyStr [49]) ([50] @ []) = Inr (fmt_d 2 1 @ [95] @ fmt_d 3 2 @ [])"
    using b by (rule create_id_key)
      (simp_all add: py_int_str_def ascii_digits_def dec_value_def suffix_ok_def)
  then have k2: "create_id L (PyStr [49]) [50] = Inr [48, 49, 95, 48, 48, 50]"
    using fmt_d_2 [of 1] fmt_d_3 [of 2] by simp
  have "create_id L (PyStr [49]) ([51] @ []) = Inr (fmt_d 2 1 @ [95] @ fmt_d 3 3 @ [])"
    using b by (rule create_id_key)
      (simp_all add: py_int_str_def ascii_digits_def dec_value_def suffix_ok_def)
  then have k3: "create_id L (PyStr [49]) [51] = Inr [48, 49, 95, 48, 48, 51]"
    using fmt_d_2 [of 1] fmt_d_3 [of 3] by simp
  show ?thesis
    by (simp add: speech_range_def unpack2_def k2 k3)
qed

text \<open>
  C7: when the ends of every speech give keys and the table has rows, the labelling
  returns the table in which a row is labelled \<open>speech\<close> exactly when its key lies between the first and the last
  key of some speech (both included, compared as strings), and \<open>narration\<close> otherwise.
  A range whose first key is greater than its last key contains no key, so marking it
  changes no row, and it is no error.  For the keys \<open>01_001\<close> to \<open>01_004\<close> and the
  one speech from 1.2 to 1.3, whose keys are \<open>01_002\<close> and \<open>01_003\<close>, the labels are
  narration, speech, speech, narration.
\<close>

theorem label_lines_ranges:
  assumes "\<forall>s \<in> set speeches. \<exists>r. speech_range L s = Inr r" and "lines \<noteq> []"
  shows "label_lines L lines speeches =
      Inr (map (\<lambda>r. r\<lparr>v_label :=
                 if (\<exists>s \<in> set speeches. \<exists>a b. speech_range L s = Inr (a, b) \<and> between a b (v_id r))
                 then ''speech'' else ''narration''\<rparr>) lines)
    \<and> (\<forall>a b. str_less b a \<longrightarrow> (\<forall>x. \<not> between a b x) \<and> mark_speech a b lines = lines)
    \<and> (map v_id lines = [[48, 49, 95, 48, 48, 49], [48, 49, 95, 48, 48, 50],
                          [48, 49, 95, 48, 48, 51], [48, 49, 95, 48, 48, 52]] \<longrightarrow>
        (\<exists>out. label_lines L lines [\<lparr>l_fi = [49, 46, 50], l_la = [49, 46, 51]\<rparr>] = Inr out
           \<and> map v_label out = [''narration'', ''speech'', ''speech'', ''narration'']))"
proof (intro conjI allI impI)
  let ?P = "\<lambda>x. \<exists>s \<in> set speeches. \<exists>a b. speech_range L s = Inr (a, b) \<and> between a b x"
  have "label_lines L lines speeches =
      Inr (map (\<lambda>r. if ?P (v_id r) then r\<lparr>v_label := ''speech''\<rparr> else r)
             (map (\<lambda>r. r\<lparr>v_label := ''narration''\<rparr>) lines))"
    unfolding label_lines_def using assms by (intro label_speeches_result) simp_all
  also have "map (\<lambda>r. if ?P (v_id r) then r\<lparr>v_label := ''speech''\<rparr> else r)
             (map (\<lambda>r. r\<lparr>v_label := ''narration''\<rparr>) lines)
      = map (\<lambda>r. r\<lparr>v_label := if ?P (v_id r) then ''speech'' else ''narration''\<rparr>) lines"
    by simp
  finally show "label_lines L lines speeches =
      Inr (map (\<lambda>r. r\<lparr>v_label := if ?P (v_id r) then ''speech'' else ''narration''\<rparr>) lines)" .
next
  fix a b x
  assume "str_less b a"
  then show "\<not> between a b x" by (rule between_empty)
next
  fix a b
  assume "str_less b a"
  then have "\<And>x. \<not> between a b x" by (rule between_empty)
  then show "mark_speech a b lines = lines" by (simp add: mark_speech_def)
next
  let ?sp = "\<lparr>l_fi = [49, 46, 50], l_la = [49, 46, 51]\<rparr>"
  let ?lo = "[48, 49, 95, 48, 48, 50] :: ustring"
  let ?hi = "[48, 49, 95, 48, 48, 51] :: ustring"
  assume ids: "map v_id lines = [[48, 49, 95, 48, 48, 49], [48, 49, 95, 48, 48, 50],
                          [48, 49, 95, 48, 48, 51], [48, 49, 95, 48, 48, 52]]"
  let ?out = "map (\<lambda>r. if between ?lo ?hi (v_id r) then r\<lparr>v_label := ''speech''\<rparr> else r)
             (map (\<lambda>r. r\<lparr>v_label := ''narration''\<rparr>) lines)"
  from ids have "lines \<noteq> []" by auto
  then have out: "label_lines L lines [?sp] = Inr ?out"
    by (simp add: label_lines_def speech_range_example mark_speech_def)
  have "map v_label ?out
      = map (\<lambda>k. if between ?lo ?hi k then ''speech'' else ''narration'') (map v_id lines)"
    by (simp add: comp_def if_distrib [of v_label])
  also have "\<dots> = [''narration'', ''speech'', ''speech'', ''narration'']"
    unfolding ids by (simp add: between_def str_le_def)
  finally have lab: "map v_label ?out = [''narration'', ''speech'', ''speech'', ''narration'']" .
  show "\<exists>out. label_lines L lines [?sp] = Inr out
           \<and> map v_label out = [''narration'', ''speech'', ''speech'', ''narration'']"
  proof (intro exI conjI)
    show "label_lines L lines [?sp] = Inr ?out" by (rule out)
    show "map v_label ?out = [''narration'', ''speech'', ''speech'', ''narration'']" by (rule lab)
  qed
qed

lemma speech_range_reversed:
  "speech_range L \<lparr>l_fi = [49, 46, 52], l_la = [49, 46, 49]\<rparr>
     = Inr ([48, 49, 95, 48, 48, 52], [48, 49, 95, 48, 48, 49])"
proof -
  have b: "py_int L (PyStr [49]) = Inr 1"
    by (simp add: py_int_def py_int_str_def ascii_digits_def dec_value_def)
  have "create_id L (PyStr [49]) ([52] @ []) = Inr (fmt_d 2 1 @ [95] @ fmt_d 3 4 @ [])"
    using b by (rule create_id_key)
      (simp_all add: py_int_str_def ascii_digits_def dec_value_def suffix_ok_def)
  then have k4: "create_id L (PyStr [49]) [52] = Inr [48, 49, 95, 48, 48, 52]"
    using fmt_d_2 [of 1] fmt_d_3 [of 4] by simp
  have "create_id L (PyStr [49]) ([49] @ []) = Inr (fmt_d 2 1 @ [95] @ fmt_d 3 1 @ [])"
    using b by (rule create_id_key)
      (simp_all add: py_int_str_def ascii_digits_def dec_value_def suffix_ok_def)
  then have k1: "create_id L (PyStr [49]) [49] = Inr [48, 49, 95, 48, 48, 49]"
    using fmt_d_2 [of 1] fmt_d_3 [of 1] by simp
  show ?thesis
    by (simp add: speech_range_def unpack2_def k4 k1)
qed

theorem label_lines_ranges_witness:
  "speech_range sample_lib \<lparr>l_fi = [49, 46, 50], l_la = [49, 46, 51]\<rparr>
     = Inr ([48, 49, 95, 48, 48, 50], [48, 49, 95, 48, 48, 51])
   \<and> speech_range sample_lib \<lparr>l_fi = [49, 46, 52], l_la = [49, 46, 49]\<rparr>
     = Inr ([48, 49, 95, 48, 48, 52], [48, 49, 95, 48, 48, 49])
   \<and> label_lines sample_lib
        [\<lparr>v_id = [48, 49, 95, 48, 48, 49], v_book = [49], v_line = [49], v_text = [], v_label = []\<rparr>,
         \<lparr>v_id = [48, 49, 95, 48, 48, 50], v_book = [49], v_line = [50], v_text = [], v_label = []\<rparr>,
         \<lparr>v_id = [48, 49, 95, 48, 48, 51], v_book = [49], v_line = [51], v_text = [], v_label = []\<rparr>,
         \<lparr>v_id = [48, 49, 95, 48, 48, 52], v_book = [49], v_line = [52], v_text = [], v_label = []\<rparr>]
        [\<lparr>l_fi = [49, 46, 50], l_la = [49, 46, 51]\<rparr>, \<lparr>l_fi = [49, 46, 52], l_la = [49, 46, 49]\<rparr>]
     = Inr
        [\<lparr>v_id = [48, 49, 95, 48, 48, 49], v_book = [49], v_line = [49], v_text = [],
           v_label = ''narration''\<rparr>,
         \<lparr>v_id = [48, 49, 95, 48, 48, 50], v_book = [49], v_line = [50], v_text = [],
           v_label = ''speech''\<rparr>,
         \<lparr>v_id = [48, 49, 95, 48, 48, 51], v_book = [49], v_line = [51], v_text = [],
           v_label = ''speech''\<rparr>,
         \<lparr>v_id = [48, 49, 95, 48, 48, 52], v_book = [49], v_line = [52], v_text = [],
           v_label = ''narration''\<rparr>]"
proof -
  let ?sps = "[\<lparr>l_fi = [49, 46, 50], l_la = [49, 46, 51]\<rparr>,
               \<lparr>l_fi = [49, 46, 52], l_la = [49, 46, 49]\<rparr>]"
  have ok: "\<forall>s \<in> set ?sps. \<exists>r. speech_range sample_lib s = Inr r"
    by (simp add: speech_range_example speech_range_reversed)
  from label_lines_ranges [OF ok] show ?thesis
    by (simp add: speech_range_example speech_range_reversed between_def str_le_def)
qed

end
